theory Spec2Isabelle
  imports Main "HOL-Library.Sublist"
begin

section \<open>Data model\<close>

text \<open>
  The entry kinds of a git tree (\<^verbatim>\<open>'blob' | 'tree' | 'commit'\<close>), and a JavaScript
  property that may be missing (\<^verbatim>\<open>undefined\<close>), \<^verbatim>\<open>null\<close> or a value: the tree
  builder compares \<^verbatim>\<open>content\<close> with \<^verbatim>\<open>=== null\<close>, which tells the three apart.
\<close>

datatype kind = Blob | Tree | Commit

datatype 'a js = Undefined | Null | Val 'a

text \<open>
  \<^verbatim>\<open>FileData\<close> (\<^verbatim>\<open>content: string | null\<close>), \<^verbatim>\<open>TreeObject\<close> and the
  \<^verbatim>\<open>TreeEntry\<close> of the git library. File modes are strings, as at run time.
\<close>

record FileData =
  fd_mode :: string
  fd_content :: "string option"

record TreeObject =
  to_path :: string
  to_mode :: string
  to_type :: kind
  to_sha :: "string js"
  to_content :: "string js"

datatype 'o TreeEntry =
  TreeEntry (te_mode: string) (te_path: string) (te_oid: 'o) (te_type: kind)

text \<open>
  Object identifiers are content hashes. The model takes the hash to be free of
  collisions and lets an identifier be the object it names: a blob's bytes, a
  directory listing, or a commit with its tree, parents and metadata.
\<close>

datatype oid =
  BlobOid string
| TreeOid "oid TreeEntry list"
| CommitOid (c_tree: oid) (c_parent: "oid list") (c_message: string)
    (c_author: "string option") (c_committer: "string option")
    (c_signingKey: "string option")

record BranchDomain =
  owner :: string
  repo :: string
  branch :: string

record SignaturePayload =
  sp_message :: string
  sp_tree :: oid
  sp_parents :: "oid list"
  sp_author :: "string option"
  sp_committer :: "string option"

text \<open>
  Modelled from the spec: the class \<^verbatim>\<open>CommitError\<close> is imported from a module that
  is not part of the source. The specification says that a failure is wrapped with
  the step that was being processed and raised again; the source constructs it as
  \<^verbatim>\<open>new CommitError(message, cause)\<close>. A message is one of the three templates of
  the source with the value it interpolates.
\<close>

datatype commit_error_message =
  Error_adding_to_tree oid
| Error_creating_commit_for oid
| Error_updating_ref_heads string oid

datatype error =
  Error string
| TypeError string
| RemoteError string
| NotFoundError
| ObjectTypeError
| NonFastForward
| CommitError commit_error_message error

record CommitAndPushOptions =
  filesPerCommit :: "nat option"
  signer :: "(SignaturePayload \<Rightarrow> error + string) option"
  author :: "string option"
  committer :: "string option"

section \<open>The remote store\<close>

text \<open>
  The object store and the transport are a library outside the source. They are
  modelled after the operations the specification lists for them: get a commit's
  tree, read a tree, write a blob, write a tree, create a commit, write a
  reference, push; each may fail.

  Every call that leaves the process is recorded in a log, in order, and every
  object the store accepts is recorded in \<open>written\<close>. A call may fail for reasons
  outside the program (network, authentication, validation): \<open>faults\<close> decides
  that from the calls made so far and the call at hand.

  \<open>refs\<close> are the references of the repository the calls work on, and \<open>HEAD\<close>
  is the branch its \<^verbatim>\<open>HEAD\<close> points at.
\<close>

datatype git_call =
  GetCommit oid
| ReadTree oid
| WriteBlob string
| WriteTree "oid TreeEntry list"
| Fetch
| GitCommit string oid "oid list" "string option" "string option" "string option"
| WriteRef string oid bool
| Push bool

record git_state =
  refs :: "string \<Rightarrow> oid option"
  HEAD :: string
  log :: "git_call list"
  written :: "oid list"
  faults :: "git_call list \<Rightarrow> git_call \<Rightarrow> error option"

definition remote :: "git_state \<Rightarrow> git_call \<Rightarrow> error option \<times> git_state" where
  "remote s c = (faults s (log s) c, s\<lparr>log := log s @ [c]\<rparr>)"

definition git_getCommit :: "git_state \<Rightarrow> oid \<Rightarrow> (error + oid) \<times> git_state" where
  "git_getCommit s commit_sha =
     (case remote s (GetCommit commit_sha) of
        (Some e, s') \<Rightarrow> (Inl e, s')
      | (None, s') \<Rightarrow>
          (case commit_sha of
             CommitOid t ps m a c k \<Rightarrow> (Inr t, s')
           | _ \<Rightarrow> (Inl NotFoundError, s')))"

definition git_readTree :: "git_state \<Rightarrow> oid \<Rightarrow> (error + oid TreeEntry list) \<times> git_state" where
  "git_readTree s x =
     (case remote s (ReadTree x) of
        (Some e, s') \<Rightarrow> (Inl e, s')
      | (None, s') \<Rightarrow>
          (case x of
             TreeOid es \<Rightarrow> (Inr es, s')
           | _ \<Rightarrow> (Inl ObjectTypeError, s')))"

definition git_writeBlob :: "git_state \<Rightarrow> string \<Rightarrow> (error + oid) \<times> git_state" where
  "git_writeBlob s b =
     (case remote s (WriteBlob b) of
        (Some e, s') \<Rightarrow> (Inl e, s')
      | (None, s') \<Rightarrow> (Inr (BlobOid b), s'\<lparr>written := written s' @ [BlobOid b]\<rparr>))"

definition git_writeTree :: "git_state \<Rightarrow> oid TreeEntry list \<Rightarrow> (error + oid) \<times> git_state" where
  "git_writeTree s es =
     (case remote s (WriteTree es) of
        (Some e, s') \<Rightarrow> (Inl e, s')
      | (None, s') \<Rightarrow> (Inr (TreeOid es), s'\<lparr>written := written s' @ [TreeOid es]\<rparr>))"

definition git_fetch :: "git_state \<Rightarrow> (error + unit) \<times> git_state" where
  "git_fetch s =
     (case remote s Fetch of
        (Some e, s') \<Rightarrow> (Inl e, s')
      | (None, s') \<Rightarrow> (Inr (), s'))"

text \<open>
  The library's \<^verbatim>\<open>commit\<close> as \<^verbatim>\<open>createCommit\<close> calls it, with neither
  \<^verbatim>\<open>noUpdateBranch\<close> nor \<^verbatim>\<open>ref\<close>: it writes the commit object and then moves the
  branch that \<^verbatim>\<open>HEAD\<close> points at to the new commit.
\<close>

definition git_commit ::
  "git_state \<Rightarrow> string \<Rightarrow> oid \<Rightarrow> oid list \<Rightarrow> string option \<Rightarrow> string option \<Rightarrow> string option
     \<Rightarrow> (error + oid) \<times> git_state" where
  "git_commit s m t ps k a c =
     (case remote s (GitCommit m t ps k a c) of
        (Some e, s') \<Rightarrow> (Inl e, s')
      | (None, s') \<Rightarrow>
          (Inr (CommitOid t ps m a c k),
           s'\<lparr>written := written s' @ [CommitOid t ps m a c k],
              refs := (refs s')(HEAD s' \<mapsto> CommitOid t ps m a c k)\<rparr>))"

definition git_push :: "git_state \<Rightarrow> bool \<Rightarrow> (error + unit) \<times> git_state" where
  "git_push s force =
     (case remote s (Push force) of
        (Some e, s') \<Rightarrow> (Inl e, s')
      | (None, s') \<Rightarrow> (Inr (), s'))"

text \<open>
  A fast-forward moves a reference to a descendant of its current target.
\<close>

fun is_ancestor :: "oid \<Rightarrow> oid \<Rightarrow> bool" where
  "is_ancestor a (CommitOid t ps m au c k) =
     (a = CommitOid t ps m au c k \<or> (\<exists>p \<in> set ps. is_ancestor a p))"
| "is_ancestor a x = (a = x)"

text \<open>
  Modelled from the spec: the store's \<^verbatim>\<open>writeRef\<close> is not part of the source. The
  specification's Reference Updater says that the underlying store rejects an
  update that is not a fast-forward from the branch's current state unless
  \<^verbatim>\<open>force\<close> is set, and that a forced update overwrites unconditionally.
\<close>

definition git_writeRef :: "git_state \<Rightarrow> string \<Rightarrow> oid \<Rightarrow> bool \<Rightarrow> (error + unit) \<times> git_state" where
  "git_writeRef s r v force =
     (case remote s (WriteRef r v force) of
        (Some e, s') \<Rightarrow> (Inl e, s')
      | (None, s') \<Rightarrow>
          (case refs s' r of
             None \<Rightarrow> (Inr (), s'\<lparr>refs := (refs s')(r \<mapsto> v)\<rparr>)
           | Some cur \<Rightarrow>
               if force \<or> is_ancestor cur v
               then (Inr (), s'\<lparr>refs := (refs s')(r \<mapsto> v)\<rparr>)
               else (Inl NonFastForward, s')))"

section \<open>commit-and-push.ts\<close>

definition DEFAULT_FILES_PER_COMMIT :: nat where
  "DEFAULT_FILES_PER_COMMIT = 100"

definition mode2type :: "string \<Rightarrow> error + kind" where
  "mode2type m =
     (if m = ''040000'' then Inr Tree
      else if m = ''100644'' then Inr Blob
      else if m = ''100755'' then Inr Blob
      else if m = ''120000'' then Inr Blob
      else if m = ''160000'' then Inr Commit
      else Inl (Error (''Unexpected GitTree entry mode: '' @ m)))"

text \<open>
  \<^verbatim>\<open>Changes\<close> is a JavaScript \<^verbatim>\<open>Map\<close>, which iterates in insertion order: a list
  of pairs. A deleted file gets \<^verbatim>\<open>sha: null\<close> and no \<^verbatim>\<open>content\<close> property.
\<close>

fun generateTreeObjects :: "(string \<times> FileData) list \<Rightarrow> error + TreeObject list" where
  "generateTreeObjects [] = Inr []"
| "generateTreeObjects ((path, fileData) # changes) =
     (case mode2type (fd_mode fileData) of
        Inl e \<Rightarrow> Inl e
      | Inr ty \<Rightarrow>
          (case generateTreeObjects changes of
             Inl e \<Rightarrow> Inl e
           | Inr tree \<Rightarrow>
               (case fd_content fileData of
                  None \<Rightarrow>
                    Inr (\<lparr>to_path = path, to_mode = fd_mode fileData, to_type = ty,
                          to_sha = Null, to_content = Undefined\<rparr> # tree)
                | Some c \<Rightarrow>
                    Inr (\<lparr>to_path = path, to_mode = fd_mode fileData, to_type = ty,
                          to_sha = Undefined, to_content = Val c\<rparr> # tree))))"

text \<open>
  \<^verbatim>\<open>all.slice(i, i + groupSize)\<close>, and the generator \<^verbatim>\<open>inGroupsOf\<close> read as the list
  of the groups it yields from cursor \<open>i\<close> on. With \<^verbatim>\<open>groupSize\<close> 0 the cursor never
  moves and the generator yields for ever: the value \<open>None\<close>.
\<close>

definition slice :: "'a list \<Rightarrow> nat \<Rightarrow> nat \<Rightarrow> 'a list" where
  "slice all i j = take (j - i) (drop i all)"

partial_function (option) inGroupsOf_from :: "'a list \<Rightarrow> nat \<Rightarrow> nat \<Rightarrow> 'a list list option" where
  "inGroupsOf_from all groupSize i =
     (if i < length all
      then
        Option.bind (inGroupsOf_from all groupSize (i + groupSize))
          (\<lambda>groups. Some (slice all i (i + groupSize) # groups))
      else Some [])"

definition inGroupsOf :: "'a list \<Rightarrow> nat \<Rightarrow> 'a list list option" where
  "inGroupsOf all groupSize = inGroupsOf_from all groupSize 0"

text \<open>
  \<^verbatim>\<open>path.split('/')\<close> never returns an empty array: the first segment and the rest.
\<close>

fun split_path :: "string \<Rightarrow> string \<times> string list" where
  "split_path [] = ([], [])"
| "split_path (c # cs) =
     (case split_path cs of
        (part, remainingParts) \<Rightarrow>
          if c = CHR ''/'' then ([], part # remainingParts) else (c # part, remainingParts))"

fun findIndex :: "('a \<Rightarrow> bool) \<Rightarrow> 'a list \<Rightarrow> nat option" where
  "findIndex P [] = None"
| "findIndex P (x # xs) = (if P x then Some 0 else map_option Suc (findIndex P xs))"

text \<open>What \<^verbatim>\<open>Buffer.from(undefined)\<close> throws.\<close>

definition Buffer_from_undefined :: error where
  "Buffer_from_undefined =
     TypeError (''The first argument must be of type string or an instance of Buffer, ''
                @ ''ArrayBuffer, or Array or an Array-like Object. Received undefined'')"

text \<open>
  \<^verbatim>\<open>updateTreeRecursively\<close>, with \<^verbatim>\<open>pathParts\<close> given as its first element and
  the rest. \<^verbatim>\<open>Buffer.from(undefined)\<close> throws a \<^verbatim>\<open>TypeError\<close> before the store
  is called.
\<close>

fun updateTreeRecursively ::
  "git_state \<Rightarrow> oid TreeEntry list \<Rightarrow> string \<Rightarrow> string list \<Rightarrow> TreeObject
     \<Rightarrow> (error + oid TreeEntry list) \<times> git_state" where
  "updateTreeRecursively s existingTree part [] fileData =
     (case to_content fileData of
        Null \<Rightarrow>
          (case findIndex (\<lambda>entry. te_path entry = part) existingTree of
             Some existingIndex \<Rightarrow>
               (Inr (take existingIndex existingTree @ drop (Suc existingIndex) existingTree), s)
           | None \<Rightarrow> (Inr existingTree, s))
      | Undefined \<Rightarrow>
          (Inl Buffer_from_undefined, s)
      | Val c \<Rightarrow>
          (case git_writeBlob s c of
             (Inl e, s') \<Rightarrow> (Inl e, s')
           | (Inr blobOid, s') \<Rightarrow>
               (case findIndex (\<lambda>entry. te_path entry = part) existingTree of
                  Some existingIndex \<Rightarrow>
                    (Inr (existingTree[existingIndex :=
                            TreeEntry (to_mode fileData) part blobOid Blob]), s')
                | None \<Rightarrow>
                    (Inr (existingTree @ [TreeEntry (to_mode fileData) part blobOid Blob]), s'))))"
| "updateTreeRecursively s existingTree part (next # remainingParts) fileData =
     (case (case findIndex (\<lambda>entry. te_path entry = part) existingTree of
              Some existingIndex \<Rightarrow>
                if te_type (existingTree ! existingIndex) = Tree
                then git_readTree s (te_oid (existingTree ! existingIndex))
                else (Inr [], s)
            | None \<Rightarrow> (Inr [], s)) of
        (Inl e, s1) \<Rightarrow> (Inl e, s1)
      | (Inr subTree, s1) \<Rightarrow>
          (case updateTreeRecursively s1 subTree next remainingParts fileData of
             (Inl e, s2) \<Rightarrow> (Inl e, s2)
           | (Inr updatedSubTree, s2) \<Rightarrow>
               (case git_writeTree s2 updatedSubTree of
                  (Inl e, s3) \<Rightarrow> (Inl e, s3)
                | (Inr newSubTreeOid, s3) \<Rightarrow>
                    (case findIndex (\<lambda>entry. te_path entry = part) existingTree of
                       Some existingIndex \<Rightarrow>
                         (Inr (existingTree[existingIndex :=
                                 TreeEntry ''040000'' part newSubTreeOid Tree]), s3)
                     | None \<Rightarrow>
                         (Inr (existingTree @ [TreeEntry ''040000'' part newSubTreeOid Tree]),
                          s3)))))"

text \<open>The \<^verbatim>\<open>for (const fileData of tree)\<close> loop of \<^verbatim>\<open>createTree\<close>.\<close>

fun applyChanges ::
  "git_state \<Rightarrow> oid TreeEntry list \<Rightarrow> TreeObject list
     \<Rightarrow> (error + oid TreeEntry list) \<times> git_state" where
  "applyChanges s currentTree [] = (Inr currentTree, s)"
| "applyChanges s currentTree (fileData # tree) =
     (case split_path (to_path fileData) of
        (part, remainingParts) \<Rightarrow>
          (case updateTreeRecursively s currentTree part remainingParts fileData of
             (Inl e, s') \<Rightarrow> (Inl e, s')
           | (Inr newTree, s') \<Rightarrow> applyChanges s' newTree tree))"

definition createTree_body ::
  "git_state \<Rightarrow> BranchDomain \<Rightarrow> oid \<Rightarrow> TreeObject list \<Rightarrow> (error + oid) \<times> git_state" where
  "createTree_body s origin refHead tree =
     (case git_getCommit s refHead of
        (Inl e, s1) \<Rightarrow> (Inl e, s1)
      | (Inr oldTreeSha, s1) \<Rightarrow>
          (case git_readTree s1 oldTreeSha of
             (Inl e, s2) \<Rightarrow> (Inl e, s2)
           | (Inr currentTree, s2) \<Rightarrow>
               (case applyChanges s2 currentTree tree of
                  (Inl e, s3) \<Rightarrow> (Inl e, s3)
                | (Inr newTree, s3) \<Rightarrow> git_writeTree s3 newTree)))"

definition createTree ::
  "git_state \<Rightarrow> BranchDomain \<Rightarrow> oid \<Rightarrow> TreeObject list \<Rightarrow> (error + oid) \<times> git_state" where
  "createTree s origin refHead tree =
     (case createTree_body s origin refHead tree of
        (Inl e, s') \<Rightarrow> (Inl (CommitError (Error_adding_to_tree refHead) e), s')
      | (Inr treeSha, s') \<Rightarrow> (Inr treeSha, s'))"

definition updateRef ::
  "git_state \<Rightarrow> BranchDomain \<Rightarrow> oid \<Rightarrow> bool \<Rightarrow> (error + unit) \<times> git_state" where
  "updateRef s origin newSha force =
     (case git_writeRef s (''refs/heads/'' @ branch origin) newSha force of
        (Inl e, s') \<Rightarrow> (Inl (CommitError (Error_updating_ref_heads (branch origin) newSha) e), s')
      | (Inr u, s') \<Rightarrow> (Inr (), s'))"

section \<open>create-commit.ts\<close>

definition createCommit_body ::
  "git_state \<Rightarrow> oid \<Rightarrow> oid \<Rightarrow> string \<Rightarrow> CommitAndPushOptions \<Rightarrow> (error + oid) \<times> git_state" where
  "createCommit_body s refHead treeSha message options =
     (case (case signer options of
              Some sign \<Rightarrow>
                (case sign \<lparr>sp_message = message, sp_tree = treeSha, sp_parents = [refHead],
                            sp_author = author options, sp_committer = committer options\<rparr> of
                   Inl e \<Rightarrow> Inl e
                 | Inr sg \<Rightarrow> Inr (Some sg))
            | None \<Rightarrow> Inr None) of
        Inl e \<Rightarrow> (Inl e, s)
      | Inr signature \<Rightarrow>
          (case git_fetch s of
             (Inl e, s1) \<Rightarrow> (Inl e, s1)
           | (Inr u, s1) \<Rightarrow>
               git_commit s1 message treeSha [refHead] signature
                 (author options) (committer options)))"

definition createCommit ::
  "git_state \<Rightarrow> oid \<Rightarrow> oid \<Rightarrow> string \<Rightarrow> CommitAndPushOptions \<Rightarrow> (error + oid) \<times> git_state" where
  "createCommit s refHead treeSha message options =
     (case createCommit_body s refHead treeSha message options of
        (Inl e, s') \<Rightarrow> (Inl (CommitError (Error_creating_commit_for treeSha) e), s')
      | (Inr sha, s') \<Rightarrow> (Inr sha, s'))"

section \<open>commitAndPush\<close>

text \<open>
  The \<^verbatim>\<open>for ... of inGroupsOf(tree, filesPerCommit)\<close> loop pulls one group at a time
  from the generator, so the loop is the generator's own loop with the body run at
  each \<^verbatim>\<open>yield\<close>. It returns the last commit, or the first error.
\<close>

partial_function (option) commitBatches ::
  "git_state \<Rightarrow> oid \<Rightarrow> TreeObject list \<Rightarrow> nat \<Rightarrow> nat \<Rightarrow> BranchDomain \<Rightarrow> string
     \<Rightarrow> CommitAndPushOptions \<Rightarrow> ((error + oid) \<times> git_state) option" where
  "commitBatches s refHead all groupSize i originBranch commitMessage options =
     (if i < length all
      then
        (case createTree s originBranch refHead (slice all i (i + groupSize)) of
           (Inl e, s1) \<Rightarrow> Some (Inl e, s1)
         | (Inr treeSha, s1) \<Rightarrow>
             (case createCommit s1 refHead treeSha commitMessage options of
                (Inl e, s2) \<Rightarrow> Some (Inl e, s2)
              | (Inr sha, s2) \<Rightarrow>
                  commitBatches s2 sha all groupSize (i + groupSize) originBranch
                    commitMessage options))
      else Some (Inr refHead, s))"

definition no_options :: CommitAndPushOptions where
  "no_options = \<lparr>filesPerCommit = None, signer = None, author = None, committer = None\<rparr>"

text \<open>\<^verbatim>\<open>options?.filesPerCommit ?? DEFAULT_FILES_PER_COMMIT\<close>.\<close>

definition filesPerCommit_or_default :: "CommitAndPushOptions option \<Rightarrow> nat" where
  "filesPerCommit_or_default options =
     (case options of
        None \<Rightarrow> DEFAULT_FILES_PER_COMMIT
      | Some opts \<Rightarrow>
          (case filesPerCommit opts of
             None \<Rightarrow> DEFAULT_FILES_PER_COMMIT
           | Some n \<Rightarrow> n))"

definition commitAndPush ::
  "git_state \<Rightarrow> oid \<Rightarrow> (string \<times> FileData) list \<Rightarrow> BranchDomain \<Rightarrow> string \<Rightarrow> bool
     \<Rightarrow> CommitAndPushOptions option \<Rightarrow> ((error + unit) \<times> git_state) option" where
  "commitAndPush s refHead changes originBranch commitMessage force options =
     (case generateTreeObjects changes of
        Inl e \<Rightarrow> Some (Inl e, s)
      | Inr tree \<Rightarrow>
          (case commitBatches s refHead tree (filesPerCommit_or_default options) 0 originBranch
                  commitMessage (case options of None \<Rightarrow> no_options | Some opts \<Rightarrow> opts) of
             None \<Rightarrow> None
           | Some (Inl e, s1) \<Rightarrow> Some (Inl e, s1)
           | Some (Inr head, s1) \<Rightarrow>
               (case updateRef s1 originBranch head force of
                  (Inl e, s2) \<Rightarrow> Some (Inl e, s2)
                | (Inr u, s2) \<Rightarrow> Some (git_push s2 force))))"

section \<open>Reading a tree\<close>

text \<open>
  Reading a listing at a path of segments: the first entry with the segment's
  name, and for a further segment the listing of that entry when it is a
  directory. This is how \<^verbatim>\<open>updateTreeRecursively\<close> itself walks a listing.
\<close>

fun lookup_path :: "oid TreeEntry list \<Rightarrow> string \<Rightarrow> string list \<Rightarrow> oid TreeEntry option" where
  "lookup_path es part [] = find (\<lambda>entry. te_path entry = part) es"
| "lookup_path es part (next # rest) =
     (case find (\<lambda>entry. te_path entry = part) es of
        None \<Rightarrow> None
      | Some e \<Rightarrow>
          if te_type e = Tree
          then (case te_oid e of TreeOid sub \<Rightarrow> lookup_path sub next rest | _ \<Rightarrow> None)
          else None)"

fun readPath :: "oid TreeEntry list \<Rightarrow> string list \<Rightarrow> oid TreeEntry option" where
  "readPath es [] = None"
| "readPath es (part # rest) = lookup_path es part rest"

definition readTreePath :: "oid \<Rightarrow> string list \<Rightarrow> oid TreeEntry option" where
  "readTreePath t q = (case t of TreeOid es \<Rightarrow> readPath es q | _ \<Rightarrow> None)"

definition readCommitPath :: "oid \<Rightarrow> string list \<Rightarrow> oid TreeEntry option" where
  "readCommitPath c q = (case c of CommitOid t ps m a cm k \<Rightarrow> readTreePath t q | _ \<Rightarrow> None)"

text \<open>The segments of a change's path, as \<^verbatim>\<open>createTree\<close> splits it.\<close>

definition segments :: "string \<Rightarrow> string list" where
  "segments p = (case split_path p of (part, remainingParts) \<Rightarrow> part # remainingParts)"

text \<open>
  A change at path \<open>p\<close> touches \<open>p\<close> itself, the directories above it (whose
  listings change) and everything below it.
\<close>

definition touches :: "string list \<Rightarrow> string list \<Rightarrow> bool" where
  "touches p q \<longleftrightarrow> prefix p q \<or> prefix q p"

text \<open>
  What a reader sees of an entry: its mode and kind, and for anything but a
  directory the object it points at. A directory is seen through its entries.
\<close>

definition view :: "oid TreeEntry \<Rightarrow> string \<times> kind \<times> oid option" where
  "view e = (te_mode e, te_type e, if te_type e = Tree then None else Some (te_oid e))"

definition sem :: "oid TreeEntry list \<Rightarrow> string list \<Rightarrow> (string \<times> kind \<times> oid option) option" where
  "sem es q = map_option view (readPath es q)"

definition sem_oid :: "oid \<Rightarrow> string list \<Rightarrow> (string \<times> kind \<times> oid option) option" where
  "sem_oid t q = map_option view (readTreePath t q)"

text \<open>
  A well-formed listing has one entry per name, and its directory entries point
  at well-formed listings.
\<close>

fun is_TreeOid :: "oid \<Rightarrow> bool" where
  "is_TreeOid (TreeOid es) = True"
| "is_TreeOid _ = False"

function wf_oid :: "oid \<Rightarrow> bool" where
  "wf_oid (TreeOid es) =
     (distinct (map te_path es)
      \<and> (\<forall>e \<in> set es. te_type e = Tree \<longrightarrow> is_TreeOid (te_oid e) \<and> wf_oid (te_oid e)))"
| "wf_oid (BlobOid b) = True"
| "wf_oid (CommitOid t ps m a c k) = True"
  by pat_completeness auto
termination
proof (relation "measure size")
  fix es :: "oid TreeEntry list" and e
  assume "e \<in> set es"
  then have "size_TreeEntry size e \<le> size_list (size_TreeEntry size) es"
    by (simp add: size_list_estimation')
  moreover have "size (te_oid e) < size_TreeEntry size e"
    by (cases e) simp
  ultimately show "(te_oid e, TreeOid es) \<in> measure size"
    by simp
qed simp

text \<open>What a change leaves at a path it touches.\<close>

definition effect ::
  "TreeObject \<Rightarrow> string list \<Rightarrow> string list \<Rightarrow> (string \<times> kind \<times> oid option) option" where
  "effect fileData p q =
     (if strict_prefix q p then Some (''040000'', Tree, None)
      else if q = p then
        (case to_content fileData of
           Val c \<Rightarrow> Some (to_mode fileData, Blob, Some (BlobOid c))
         | _ \<Rightarrow> None)
      else None)"

section \<open>Vocabulary of the proofs\<close>

text \<open>
  The three list operations of \<^verbatim>\<open>updateTreeRecursively\<close>, named: replace the entry
  at \<^verbatim>\<open>existingIndex\<close> or push a new one; \<^verbatim>\<open>splice(existingIndex, 1)\<close> when the name
  is there; and the listing a directory segment starts from.
\<close>

definition upsert :: "oid TreeEntry list \<Rightarrow> oid TreeEntry \<Rightarrow> oid TreeEntry list" where
  "upsert es new =
     (case findIndex (\<lambda>entry. te_path entry = te_path new) es of
        Some i \<Rightarrow> es[i := new]
      | None \<Rightarrow> es @ [new])"

definition remove_named :: "oid TreeEntry list \<Rightarrow> string \<Rightarrow> oid TreeEntry list" where
  "remove_named es part =
     (case findIndex (\<lambda>entry. te_path entry = part) es of
        Some i \<Rightarrow> take i es @ drop (Suc i) es
      | None \<Rightarrow> es)"

definition subtree_at :: "oid TreeEntry list \<Rightarrow> string \<Rightarrow> oid TreeEntry list" where
  "subtree_at es part =
     (case find (\<lambda>entry. te_path entry = part) es of
        None \<Rightarrow> []
      | Some e \<Rightarrow>
          if te_type e = Tree then (case te_oid e of TreeOid sub \<Rightarrow> sub | _ \<Rightarrow> []) else [])"

text \<open>A store whose calls all succeed.\<close>

definition no_faults :: "git_state \<Rightarrow> bool" where
  "no_faults s \<longleftrightarrow> (\<forall>l c. faults s l c = None)"








section \<open>Example stores and trees\<close>

text \<open>
  A store in which no call fails, and a base commit whose tree holds a file
  \<^verbatim>\<open>README\<close> and a directory \<^verbatim>\<open>docs\<close> with one file.
\<close>

definition store0 :: git_state where
  "store0 = \<lparr>refs = Map.empty, HEAD = ''refs/heads/b'', log = [], written = [], faults = (\<lambda>l c. None)\<rparr>"

definition origin0 :: BranchDomain where
  "origin0 = \<lparr>owner = ''o'', repo = ''r'', branch = ''b''\<rparr>"

definition tree0 :: "oid TreeEntry list" where
  "tree0 =
     [TreeEntry ''100644'' ''README'' (BlobOid ''old'') Blob,
      TreeEntry ''040000'' ''docs''
        (TreeOid [TreeEntry ''100644'' ''a.md'' (BlobOid ''hello'') Blob]) Tree]"

definition base0 :: oid where
  "base0 = CommitOid (TreeOid tree0) [] ''init'' None None None"

definition put :: "string \<Rightarrow> string \<Rightarrow> TreeObject" where
  "put p c = \<lparr>to_path = p, to_mode = ''100644'', to_type = Blob, to_sha = Undefined,
              to_content = Val c\<rparr>"

text \<open>A deletion as \<^verbatim>\<open>generateTreeObjects\<close> emits it: \<^verbatim>\<open>sha: null\<close>, no content.\<close>

definition gone :: "string \<Rightarrow> TreeObject" where
  "gone p = \<lparr>to_path = p, to_mode = ''100644'', to_type = Blob, to_sha = Null,
             to_content = Undefined\<rparr>"

text \<open>
  A deletion as an untyped caller can hand it to \<^verbatim>\<open>createTree\<close>: \<^verbatim>\<open>content: null\<close>.
\<close>

definition del :: "string \<Rightarrow> TreeObject" where
  "del p = \<lparr>to_path = p, to_mode = ''100644'', to_type = Blob, to_sha = Null,
            to_content = Null\<rparr>"


definition store_at_base :: git_state where
  "store_at_base =
     \<lparr>refs = [''refs/heads/b'' \<mapsto> base0], HEAD = ''refs/heads/b'', log = [], written = [], faults = (\<lambda>l c. None)\<rparr>"

definition store_offline :: git_state where
  "store_offline =
     \<lparr>refs = [''refs/heads/b'' \<mapsto> base0], HEAD = ''refs/heads/b'', log = [], written = [],
      faults = (\<lambda>l c. Some (RemoteError ''ECONNREFUSED''))\<rparr>"

definition unrelated0 :: oid where
  "unrelated0 = CommitOid (TreeOid []) [] ''other'' None None None"

definition child0 :: oid where
  "child0 = CommitOid (TreeOid []) [base0] ''next'' None None None"

section \<open>Batching\<close>

lemma ceil_div_step:
  assumes "0 < (g::nat)" "0 < n"
  shows "Suc ((n - g + g - 1) div g) = (n + g - 1) div g"
proof -
  have e: "n + g - 1 = (n - 1) + g" using assms by simp
  have s: "((n - 1) + g) div g = Suc ((n - 1) div g)"
    using assms(1) div_add_self2[of g "n - 1"] by (simp only: Suc_eq_plus1)
  show ?thesis
  proof (cases "g \<le> n")
    case True
    then have "n - g + g - 1 = n - 1" by simp
    then show ?thesis using e s by (simp only:)
  next
    case False
    then have a: "n - g + g - 1 = g - 1" by simp
    have b: "(g - 1) div g = 0" using assms by simp
    have c: "(n - 1) div g = 0" using False assms by simp
    show ?thesis using a b c e s by (simp only:)
  qed
qed

lemma inGroupsOf_from_groups:
  assumes "0 < groupSize"
  shows "\<exists>groups. inGroupsOf_from all groupSize i = Some groups
           \<and> concat groups = drop i all
           \<and> length groups = (length all - i + groupSize - 1) div groupSize
           \<and> (\<forall>g \<in> set groups. g \<noteq> [] \<and> length g \<le> groupSize)
           \<and> (\<forall>g \<in> set (butlast groups). length g = groupSize)"
proof (induction "length all - i" arbitrary: i rule: less_induct)
  case less
  show ?case
  proof (cases "i < length all")
    case False
    then show ?thesis using assms
      by (subst inGroupsOf_from.simps) simp
  next
    case True
    let ?j = "i + groupSize"
    have "length all - ?j < length all - i" using True assms by simp
    from less[OF this] obtain groups where
      g: "inGroupsOf_from all groupSize ?j = Some groups"
        "concat groups = drop ?j all"
        "length groups = (length all - ?j + groupSize - 1) div groupSize"
        "\<forall>g \<in> set groups. g \<noteq> [] \<and> length g \<le> groupSize"
        "\<forall>g \<in> set (butlast groups). length g = groupSize"
      by blast
    let ?x = "slice all i ?j"
    have x: "?x = take groupSize (drop i all)" by (simp add: slice_def)
    have r: "inGroupsOf_from all groupSize i = Some (?x # groups)"
      using True g(1) by (subst inGroupsOf_from.simps) simp
    have c: "concat (?x # groups) = drop i all"
      using g(2) x by (simp add: add.commute[of i groupSize] flip: drop_drop)
    have l: "length (?x # groups) = (length all - i + groupSize - 1) div groupSize"
      using g(3) ceil_div_step[OF assms, of "length all - i"] True by simp
    have b: "\<forall>g \<in> set (?x # groups). g \<noteq> [] \<and> length g \<le> groupSize"
      using g(4) x True assms by auto
    have "groups \<noteq> [] \<Longrightarrow> length ?x = groupSize"
    proof -
      assume "groups \<noteq> []"
      then have "?j < length all" using g(1)
        by (subst (asm) inGroupsOf_from.simps) (auto split: if_splits)
      then show ?thesis using x by simp
    qed
    then have bl: "\<forall>g \<in> set (butlast (?x # groups)). length g = groupSize"
      using g(5) by auto
    show ?thesis using r c l b bl by blast
  qed
qed

text \<open>
  C5. For every sequence and every group size of at least 1, \<^verbatim>\<open>inGroupsOf\<close> returns
  \<open>\<lceil>len / groupSize\<rceil>\<close> groups whose concatenation is the input in its order;
  every group has at most \<open>groupSize\<close> elements and every group but the last has
  exactly \<open>groupSize\<close>. A caller that gives no group size gets 100.
\<close>

theorem inGroupsOf_partition:
  assumes "0 < groupSize"
  shows "\<exists>groups. inGroupsOf all groupSize = Some groups
           \<and> length groups = (length all + groupSize - 1) div groupSize
           \<and> concat groups = all
           \<and> (\<forall>g \<in> set groups. length g \<le> groupSize)
           \<and> (\<forall>g \<in> set (butlast groups). length g = groupSize)
           \<and> filesPerCommit_or_default None = 100
           \<and> filesPerCommit_or_default (Some no_options) = 100"
proof -
  from inGroupsOf_from_groups[OF assms, of all 0] obtain groups where
    "inGroupsOf_from all groupSize 0 = Some groups"
    "concat groups = drop 0 all"
    "length groups = (length all - 0 + groupSize - 1) div groupSize"
    "\<forall>g \<in> set groups. g \<noteq> [] \<and> length g \<le> groupSize"
    "\<forall>g \<in> set (butlast groups). length g = groupSize"
    by blast
  then show ?thesis
    by (simp add: inGroupsOf_def filesPerCommit_or_default_def DEFAULT_FILES_PER_COMMIT_def
        no_options_def)
qed

theorem inGroupsOf_partition_witness:
  "(0::nat) < 2
   \<and> inGroupsOf [1, 2, 3, 4, 5 :: nat] 2 = Some [[1, 2], [3, 4], [5]]
   \<and> (\<exists>groups. inGroupsOf [1, 2, 3, 4, 5 :: nat] 2 = Some groups
          \<and> length groups = (length [1, 2, 3, 4, 5 :: nat] + 2 - 1) div 2
          \<and> concat groups = [1, 2, 3, 4, 5]
          \<and> (\<forall>g \<in> set groups. length g \<le> 2)
          \<and> (\<forall>g \<in> set (butlast groups). length g = 2)
          \<and> filesPerCommit_or_default None = 100
          \<and> filesPerCommit_or_default (Some no_options) = 100)"
proof -
  have h: "(0::nat) < 2" by simp
  have e: "inGroupsOf [1, 2, 3, 4, 5 :: nat] 2 = Some [[1, 2], [3, 4], [5]]"
    by (simp add: inGroupsOf_def inGroupsOf_from.simps slice_def)
  show ?thesis
    using h e inGroupsOf_partition[OF h, of "[1, 2, 3, 4, 5 :: nat]"] by blast
qed

section \<open>The steps of the tree builder\<close>

lemma findIndex_None: "findIndex P xs = None \<longleftrightarrow> find P xs = None"
  by (induction xs) auto

lemma findIndex_Some:
  "findIndex P xs = Some i \<Longrightarrow> i < length xs \<and> find P xs = Some (xs ! i) \<and> P (xs ! i)"
  by (induction xs arbitrary: i) (auto split: if_splits)

lemma find_upsert:
  "find (\<lambda>e. te_path e = q) (upsert es new) =
     (if q = te_path new then Some new else find (\<lambda>e. te_path e = q) es)"
  unfolding upsert_def
proof (induction es)
  case Nil
  then show ?case by auto
next
  case (Cons x xs)
  then show ?case
    by (cases "findIndex (\<lambda>entry. te_path entry = te_path new) xs") auto
qed

lemma find_None_notin: "find (\<lambda>e. te_path e = q) es = None \<longleftrightarrow> q \<notin> te_path ` set es"
  by (induction es) auto

lemma distinct_upsert:
  assumes "distinct (map te_path es)"
  shows "distinct (map te_path (upsert es new))"
proof (cases "findIndex (\<lambda>entry. te_path entry = te_path new) es")
  case None
  then have "te_path new \<notin> te_path ` set es"
    using findIndex_None[of "\<lambda>entry. te_path entry = te_path new" es] find_None_notin by blast
  then show ?thesis using assms None by (simp add: upsert_def)
next
  case (Some i)
  then have i: "i < length es" "te_path (es ! i) = te_path new"
    using findIndex_Some[of "\<lambda>entry. te_path entry = te_path new" es i] by auto
  have "map te_path (es[i := new]) = (map te_path es)[i := te_path new]"
    by (simp add: map_update)
  also have "\<dots> = map te_path es"
    using i by (metis length_map list_update_id nth_map)
  finally show ?thesis using assms Some by (simp add: upsert_def)
qed

lemma set_upsert: "set (upsert es new) \<subseteq> insert new (set es)"
  unfolding upsert_def
  by (auto split: option.splits dest: subsetD[OF set_update_subset_insert])

lemma remove_named_Cons:
  "remove_named (x # xs) part = (if te_path x = part then xs else x # remove_named xs part)"
  unfolding remove_named_def
  by (cases "findIndex (\<lambda>entry. te_path entry = part) xs") auto

lemma remove_named_Nil: "remove_named [] part = []"
  by (simp add: remove_named_def)

lemma find_remove_other:
  "q \<noteq> part \<Longrightarrow> find (\<lambda>e. te_path e = q) (remove_named es part) = find (\<lambda>e. te_path e = q) es"
  by (induction es) (auto simp: remove_named_Cons remove_named_Nil)

lemma set_remove_named: "set (remove_named es part) \<subseteq> set es"
  by (induction es) (auto simp: remove_named_Cons remove_named_Nil)

lemma distinct_remove_named:
  "distinct (map te_path es) \<Longrightarrow> distinct (map te_path (remove_named es part))"
  using set_remove_named
  by (induction es) (fastforce simp: remove_named_Cons remove_named_Nil)+

lemma find_remove_same:
  "distinct (map te_path es) \<Longrightarrow> find (\<lambda>e. te_path e = part) (remove_named es part) = None"
  by (induction es) (auto simp: remove_named_Cons remove_named_Nil find_None_notin)

lemma lookup_path_Nil: "lookup_path [] q qs = None"
  by (cases qs) simp_all

lemma lookup_path_find_cong:
  "find (\<lambda>e. te_path e = q) es = find (\<lambda>e. te_path e = q) es'
     \<Longrightarrow> lookup_path es q qs = lookup_path es' q qs"
  by (cases qs) simp_all

lemma lookup_path_subtree:
  "lookup_path es q (q2 # qs) = lookup_path (subtree_at es q) q2 qs"
  by (auto simp: subtree_at_def lookup_path_Nil split: option.splits oid.splits)

lemma subtree_at_upsert_tree:
  "subtree_at (upsert es (TreeEntry m part (TreeOid sub) Tree)) part = sub"
  by (simp add: subtree_at_def find_upsert)

text \<open>Inversion of the tree builder.\<close>

lemma update_leaf_Null:
  "to_content fileData = Null \<Longrightarrow>
   updateTreeRecursively s es part [] fileData = (Inr (remove_named es part), s)"
  by (simp add: remove_named_def split: option.splits)

lemma update_leaf_Val:
  assumes "to_content fileData = Val c"
    and "updateTreeRecursively s es part [] fileData = (Inr es', s')"
  shows "es' = upsert es (TreeEntry (to_mode fileData) part (BlobOid c) Blob)"
  using assms
  by (auto simp: upsert_def git_writeBlob_def remote_def split: option.splits prod.splits sum.splits)

lemma update_leaf_Undefined:
  "to_content fileData = Undefined \<Longrightarrow>
   \<exists>e. updateTreeRecursively s es part [] fileData = (Inl e, s)"
  by simp

lemma readTree_Inr: "git_readTree s x = (Inr es, s') \<Longrightarrow> x = TreeOid es"
  by (auto simp: git_readTree_def remote_def split: option.splits oid.splits)

lemma writeTree_Inr: "git_writeTree s es = (Inr x, s') \<Longrightarrow> x = TreeOid es"
  by (auto simp: git_writeTree_def remote_def split: option.splits)

lemma update_dir:
  assumes "updateTreeRecursively s es part (n # rest) fileData = (Inr es', s')"
  shows "\<exists>s1 s2 sub'. updateTreeRecursively s1 (subtree_at es part) n rest fileData = (Inr sub', s2)
           \<and> es' = upsert es (TreeEntry ''040000'' part (TreeOid sub') Tree)"
proof -
  let ?r = "case findIndex (\<lambda>entry. te_path entry = part) es of
              Some existingIndex \<Rightarrow>
                if te_type (es ! existingIndex) = Tree
                then git_readTree s (te_oid (es ! existingIndex))
                else (Inr [], s)
            | None \<Rightarrow> (Inr [], s)"
  from assms obtain subTree s1 where r: "?r = (Inr subTree, s1)"
    by (auto split: prod.splits sum.splits)
  have sub: "subTree = subtree_at es part"
  proof (cases "findIndex (\<lambda>entry. te_path entry = part) es")
    case None
    moreover from None have "find (\<lambda>entry. te_path entry = part) es = None"
      by (simp add: findIndex_None)
    ultimately show ?thesis using r by (simp add: subtree_at_def)
  next
    case (Some i)
    then have f: "find (\<lambda>entry. te_path entry = part) es = Some (es ! i)"
      using findIndex_Some by fastforce
    show ?thesis
    proof (cases "te_type (es ! i) = Tree")
      case True
      then have "git_readTree s (te_oid (es ! i)) = (Inr subTree, s1)" using r Some by simp
      then have "te_oid (es ! i) = TreeOid subTree" by (rule readTree_Inr)
      then show ?thesis using f True by (simp add: subtree_at_def)
    next
      case False
      then show ?thesis using r Some f by (simp add: subtree_at_def)
    qed
  qed
  from assms r obtain sub' s2 where
    u: "updateTreeRecursively s1 subTree n rest fileData = (Inr sub', s2)"
    by (auto split: prod.splits sum.splits)
  from assms r u obtain x s3 where w: "git_writeTree s2 sub' = (Inr x, s3)"
    by (auto split: prod.splits sum.splits)
  then have x: "x = TreeOid sub'" by (rule writeTree_Inr)
  have "es' = upsert es (TreeEntry ''040000'' part (TreeOid sub') Tree)"
    using assms r u w x by (auto simp: upsert_def split: option.splits)
  then show ?thesis using u sub by blast
qed

lemma update_frame:
  assumes "updateTreeRecursively s es part rest fileData = (Inr es', s')"
    and "\<not> prefix (part # rest) (q # qs)" and "\<not> prefix (q # qs) (part # rest)"
  shows "lookup_path es' q qs = lookup_path es q qs"
  using assms
proof (induction rest arbitrary: s es part es' s' q qs)
  case Nil
  from Nil.prems(2) have ne: "q \<noteq> part" by simp
  show ?case
  proof (cases "to_content fileData")
    case Undefined
    then show ?thesis using Nil.prems(1) by simp
  next
    case Null
    then have "es' = remove_named es part"
      using Nil.prems(1) update_leaf_Null[of fileData s es part] by simp
    then have "find (\<lambda>e. te_path e = q) es' = find (\<lambda>e. te_path e = q) es"
      using ne by (simp add: find_remove_other)
    then show ?thesis by (rule lookup_path_find_cong)
  next
    case (Val c)
    then have "es' = upsert es (TreeEntry (to_mode fileData) part (BlobOid c) Blob)"
      using Nil.prems(1) by (rule update_leaf_Val)
    then have "find (\<lambda>e. te_path e = q) es' = find (\<lambda>e. te_path e = q) es"
      using ne by (simp add: find_upsert)
    then show ?thesis by (rule lookup_path_find_cong)
  qed
next
  case (Cons n rest)
  from update_dir[OF Cons.prems(1)] obtain s1 s2 sub' where
    u: "updateTreeRecursively s1 (subtree_at es part) n rest fileData = (Inr sub', s2)"
    and e: "es' = upsert es (TreeEntry ''040000'' part (TreeOid sub') Tree)"
    by blast
  show ?case
  proof (cases "q = part")
    case False
    then have "find (\<lambda>e. te_path e = q) es' = find (\<lambda>e. te_path e = q) es"
      using e by (simp add: find_upsert)
    then show ?thesis by (rule lookup_path_find_cong)
  next
    case True
    with Cons.prems(3) obtain q2 qs' where qs: "qs = q2 # qs'"
      by (cases qs) auto
    have "\<not> prefix (n # rest) (q2 # qs')" "\<not> prefix (q2 # qs') (n # rest)"
      using Cons.prems(2,3) True qs by auto
    from Cons.IH[OF u this]
    have "lookup_path sub' q2 qs' = lookup_path (subtree_at es part) q2 qs'" .
    then show ?thesis
      using True qs e by (simp only: lookup_path_subtree subtree_at_upsert_tree)
  qed
qed

lemma touches_Cons: "touches (p # ps) (q # qs) \<longleftrightarrow> p = q \<and> (ps = [] \<or> qs = [] \<or> touches ps qs)"
  by (cases ps; cases qs) (auto simp: touches_def)

lemma find_Some_mem: "find P xs = Some x \<Longrightarrow> x \<in> set xs \<and> P x"
  by (induction xs) (auto split: if_splits)

lemma wf_subtree_at:
  assumes "wf_oid (TreeOid es)"
  shows "wf_oid (TreeOid (subtree_at es part))"
proof (cases "find (\<lambda>entry. te_path entry = part) es")
  case None
  then show ?thesis by (simp add: subtree_at_def)
next
  case (Some e)
  then have m: "e \<in> set es" by (simp add: find_Some_mem)
  show ?thesis
  proof (cases "te_type e = Tree")
    case False
    then show ?thesis using Some by (simp add: subtree_at_def)
  next
    case True
    then have w: "is_TreeOid (te_oid e)" "wf_oid (te_oid e)"
      using assms m by auto
    then obtain sub where sub: "te_oid e = TreeOid sub"
      by (cases "te_oid e") simp_all
    then have "subtree_at es part = sub"
      using Some True by (simp add: subtree_at_def)
    then show ?thesis using w(2) sub by simp
  qed
qed

lemma wf_upsert:
  assumes "wf_oid (TreeOid es)"
    and "te_type new = Tree \<longrightarrow> is_TreeOid (te_oid new) \<and> wf_oid (te_oid new)"
  shows "wf_oid (TreeOid (upsert es new))"
proof -
  have "distinct (map te_path (upsert es new))"
    using assms(1) by (simp add: distinct_upsert)
  moreover have "\<forall>e \<in> set (upsert es new). te_type e = Tree \<longrightarrow> is_TreeOid (te_oid e) \<and> wf_oid (te_oid e)"
    using assms set_upsert[of es new] by auto
  ultimately show ?thesis by simp
qed

lemma wf_remove_named:
  assumes "wf_oid (TreeOid es)"
  shows "wf_oid (TreeOid (remove_named es part))"
proof -
  have "distinct (map te_path (remove_named es part))"
    using assms by (simp add: distinct_remove_named)
  moreover have "\<forall>e \<in> set (remove_named es part). te_type e = Tree \<longrightarrow> is_TreeOid (te_oid e) \<and> wf_oid (te_oid e)"
    using assms set_remove_named[of es part] by auto
  ultimately show ?thesis by simp
qed

lemma update_wf:
  assumes "updateTreeRecursively s es part rest fileData = (Inr es', s')"
    and "wf_oid (TreeOid es)"
  shows "wf_oid (TreeOid es')"
  using assms
proof (induction rest arbitrary: s es part es' s')
  case Nil
  show ?case
  proof (cases "to_content fileData")
    case Undefined
    then show ?thesis using Nil.prems(1) by simp
  next
    case Null
    then have "es' = remove_named es part"
      using Nil.prems(1) update_leaf_Null[of fileData s es part] by simp
    moreover have "wf_oid (TreeOid (remove_named es part))"
      using Nil.prems(2) by (rule wf_remove_named)
    ultimately show ?thesis by (simp only:)
  next
    case (Val c)
    then have "es' = upsert es (TreeEntry (to_mode fileData) part (BlobOid c) Blob)"
      using Nil.prems(1) by (rule update_leaf_Val)
    moreover have "wf_oid (TreeOid (upsert es (TreeEntry (to_mode fileData) part (BlobOid c) Blob)))"
      by (rule wf_upsert[OF Nil.prems(2)]) simp
    ultimately show ?thesis by (simp only:)
  qed
next
  case (Cons n rest)
  from update_dir[OF Cons.prems(1)] obtain s1 s2 sub' where
    u: "updateTreeRecursively s1 (subtree_at es part) n rest fileData = (Inr sub', s2)"
    and e: "es' = upsert es (TreeEntry ''040000'' part (TreeOid sub') Tree)"
    by blast
  have w: "wf_oid (TreeOid sub')"
    using Cons.IH[OF u wf_subtree_at[OF Cons.prems(2)]] .
  have "wf_oid (TreeOid (upsert es (TreeEntry ''040000'' part (TreeOid sub') Tree)))"
    by (rule wf_upsert[OF Cons.prems(2)]) (simp del: wf_oid.simps add: w)
  then show ?case using e by (simp only:)
qed

lemma update_effect:
  assumes "updateTreeRecursively s es part rest fileData = (Inr es', s')"
    and "wf_oid (TreeOid es)"
    and "touches (part # rest) (q # qs)"
  shows "sem es' (q # qs) = effect fileData (part # rest) (q # qs)"
  using assms
proof (induction rest arbitrary: s es part es' s' q qs)
  case Nil
  from Nil.prems(3) have q: "q = part" by (simp add: touches_Cons)
  have d: "distinct (map te_path es)" using Nil.prems(2) by simp
  show ?case
  proof (cases "to_content fileData")
    case Undefined
    then show ?thesis using Nil.prems(1) by simp
  next
    case Null
    then have "es' = remove_named es part"
      using Nil.prems(1) update_leaf_Null[of fileData s es part] by simp
    then have "find (\<lambda>e. te_path e = part) es' = None"
      using d by (simp add: find_remove_same)
    then have "lookup_path es' part qs = None" by (cases qs) simp_all
    then show ?thesis using q Null by (cases qs) (simp_all add: sem_def effect_def)
  next
    case (Val c)
    then have "es' = upsert es (TreeEntry (to_mode fileData) part (BlobOid c) Blob)"
      using Nil.prems(1) by (rule update_leaf_Val)
    then have "find (\<lambda>e. te_path e = part) es' = Some (TreeEntry (to_mode fileData) part (BlobOid c) Blob)"
      by (simp add: find_upsert)
    then show ?thesis using q Val by (cases qs) (simp_all add: sem_def effect_def view_def)
  qed
next
  case (Cons n rest)
  from Cons.prems(3) have q: "q = part" by (simp add: touches_Cons)
  from update_dir[OF Cons.prems(1)] obtain s1 s2 sub' where
    u: "updateTreeRecursively s1 (subtree_at es part) n rest fileData = (Inr sub', s2)"
    and e: "es' = upsert es (TreeEntry ''040000'' part (TreeOid sub') Tree)"
    by blast
  have f: "find (\<lambda>e. te_path e = part) es' = Some (TreeEntry ''040000'' part (TreeOid sub') Tree)"
    using e by (simp add: find_upsert)
  show ?case
  proof (cases qs)
    case Nil
    then show ?thesis using q f by (simp add: sem_def effect_def view_def)
  next
    case (Cons q2 qs')
    then have t: "touches (n # rest) (q2 # qs')"
      using Cons.prems(3) q by (simp add: touches_Cons)
    have "sem sub' (q2 # qs') = effect fileData (n # rest) (q2 # qs')"
      using Cons.IH[OF u wf_subtree_at[OF Cons.prems(2)] t] .
    moreover have "sem es' (q # qs) = sem sub' (q2 # qs')"
      using q Cons f by (simp add: sem_def)
    moreover have "effect fileData (part # n # rest) (q # qs) = effect fileData (n # rest) (q2 # qs')"
      using q Cons by (simp add: effect_def)
    ultimately show ?thesis by simp
  qed
qed

lemma getCommit_Inr:
  "git_getCommit s x = (Inr t, s') \<Longrightarrow> \<exists>ps m a c k. x = CommitOid t ps m a c k"
  by (auto simp: git_getCommit_def remote_def split: option.splits oid.splits)

lemma createTree_Inr:
  assumes "createTree s origin refHead tree = (Inr treeSha, s')"
  shows "\<exists>es ps m a c k es' s2 s3.
           refHead = CommitOid (TreeOid es) ps m a c k
           \<and> applyChanges s2 es tree = (Inr es', s3)
           \<and> treeSha = TreeOid es'"
proof -
  from assms have b: "createTree_body s origin refHead tree = (Inr treeSha, s')"
    by (auto simp: createTree_def split: prod.splits sum.splits)
  then obtain t s1 where g: "git_getCommit s refHead = (Inr t, s1)"
    by (auto simp: createTree_body_def split: prod.splits sum.splits)
  with b obtain es s2 where r: "git_readTree s1 t = (Inr es, s2)"
    by (auto simp: createTree_body_def split: prod.splits sum.splits)
  with b g obtain es' s3 where a: "applyChanges s2 es tree = (Inr es', s3)"
    by (auto simp: createTree_body_def split: prod.splits sum.splits)
  with b g r have w: "git_writeTree s3 es' = (Inr treeSha, s')"
    by (simp add: createTree_body_def)
  from g obtain ps m au c k where "refHead = CommitOid t ps m au c k"
    using getCommit_Inr by blast
  moreover from r have "t = TreeOid es" by (rule readTree_Inr)
  moreover from w have "treeSha = TreeOid es'" by (rule writeTree_Inr)
  ultimately show ?thesis using a by blast
qed

lemma applyChanges_Cons:
  assumes "applyChanges s es (fileData # tree) = (Inr es', s')"
  shows "\<exists>part rest em sm. segments (to_path fileData) = part # rest
           \<and> updateTreeRecursively s es part rest fileData = (Inr em, sm)
           \<and> applyChanges sm em tree = (Inr es', s')"
proof -
  obtain part rest where sp: "split_path (to_path fileData) = (part, rest)"
    by (cases "split_path (to_path fileData)")
  with assms obtain em sm where
    u: "updateTreeRecursively s es part rest fileData = (Inr em, sm)"
    by (auto split: prod.splits sum.splits)
  with assms sp have "applyChanges sm em tree = (Inr es', s')" by simp
  then show ?thesis using sp u by (auto simp: segments_def)
qed

lemma applyChanges_append:
  assumes "applyChanges s es (as @ bs) = (Inr es', s')"
  shows "\<exists>em sm. applyChanges s es as = (Inr em, sm) \<and> applyChanges sm em bs = (Inr es', s')"
  using assms
proof (induction as arbitrary: s es)
  case Nil
  then show ?case by simp
next
  case (Cons a as)
  obtain part rest where sp: "split_path (to_path a) = (part, rest)"
    by (cases "split_path (to_path a)")
  from Cons.prems sp obtain e1 s1 where
    u: "updateTreeRecursively s es part rest a = (Inr e1, s1)"
    by (auto split: prod.splits sum.splits)
  with Cons.prems sp have "applyChanges s1 e1 (as @ bs) = (Inr es', s')" by simp
  from Cons.IH[OF this] obtain em sm where
    "applyChanges s1 e1 as = (Inr em, sm)" "applyChanges sm em bs = (Inr es', s')"
    by blast
  then show ?case using sp u by simp
qed

lemma applyChanges_frame:
  assumes "applyChanges s es tree = (Inr es', s')"
    and "\<forall>fileData \<in> set tree. \<not> touches (segments (to_path fileData)) q"
  shows "readPath es' q = readPath es q"
  using assms
proof (induction tree arbitrary: s es)
  case Nil
  then show ?case by simp
next
  case (Cons fileData tree)
  from applyChanges_Cons[OF Cons.prems(1)] obtain part rest em sm where
    sg: "segments (to_path fileData) = part # rest"
    and u: "updateTreeRecursively s es part rest fileData = (Inr em, sm)"
    and a: "applyChanges sm em tree = (Inr es', s')"
    by blast
  have "\<forall>fileData \<in> set tree. \<not> touches (segments (to_path fileData)) q"
    using Cons.prems(2) by simp
  from Cons.IH[OF a this] have r: "readPath es' q = readPath em q" .
  have nt: "\<not> touches (part # rest) q" using Cons.prems(2) sg by simp
  have "readPath em q = readPath es q"
  proof (cases q)
    case Nil
    then show ?thesis by simp
  next
    case (Cons q1 qs)
    then have "\<not> prefix (part # rest) (q1 # qs)" "\<not> prefix (q1 # qs) (part # rest)"
      using nt by (simp_all add: touches_def)
    from update_frame[OF u this] show ?thesis using Cons by simp
  qed
  then show ?case using r by simp
qed

lemma applyChanges_wf:
  assumes "applyChanges s es tree = (Inr es', s')" and "wf_oid (TreeOid es)"
  shows "wf_oid (TreeOid es')"
  using assms
proof (induction tree arbitrary: s es)
  case Nil
  then show ?case by simp
next
  case (Cons fileData tree)
  from applyChanges_Cons[OF Cons.prems(1)] obtain part rest em sm where
    u: "updateTreeRecursively s es part rest fileData = (Inr em, sm)"
    and a: "applyChanges sm em tree = (Inr es', s')"
    by blast
  show ?case using Cons.IH[OF a update_wf[OF u Cons.prems(2)]] .
qed

lemma sem_Nil: "sem es [] = None"
  by (simp add: sem_def)

lemma update_agree:
  assumes ua: "updateTreeRecursively sa a part rest fileData = (Inr a', sa')"
    and ub: "updateTreeRecursively sb b part rest fileData = (Inr b', sb')"
    and wa: "wf_oid (TreeOid a)" and wb: "wf_oid (TreeOid b)"
    and ag: "\<forall>q. \<not> R q \<longrightarrow> sem a q = sem b q"
    and q: "\<not> R q \<or> touches (part # rest) q"
  shows "sem a' q = sem b' q"
proof (cases q)
  case Nil
  then show ?thesis by (simp add: sem_Nil)
next
  case (Cons q1 qs)
  show ?thesis
  proof (cases "touches (part # rest) q")
    case True
    then show ?thesis
      using update_effect[OF ua wa] update_effect[OF ub wb] Cons by simp
  next
    case False
    then have n: "\<not> prefix (part # rest) (q1 # qs)" "\<not> prefix (q1 # qs) (part # rest)"
      using Cons by (simp_all add: touches_def)
    have "sem a' q = sem a q"
      using update_frame[OF ua n] Cons by (simp add: sem_def)
    moreover have "sem b' q = sem b q"
      using update_frame[OF ub n] Cons by (simp add: sem_def)
    moreover have "sem a q = sem b q" using ag q False by blast
    ultimately show ?thesis by simp
  qed
qed

lemma applyChanges_agree:
  assumes "applyChanges sa a tree = (Inr a', sa')"
    and "applyChanges sb b tree = (Inr b', sb')"
    and "wf_oid (TreeOid a)" and "wf_oid (TreeOid b)"
    and "\<forall>q. \<not> R q \<longrightarrow> sem a q = sem b q"
  shows "\<forall>q. \<not> R q \<longrightarrow> sem a' q = sem b' q"
  using assms
proof (induction tree arbitrary: sa a sb b)
  case Nil
  then show ?case by simp
next
  case (Cons fileData tree)
  from applyChanges_Cons[OF Cons.prems(1)] obtain part rest am sam where
    sg: "segments (to_path fileData) = part # rest"
    and ua: "updateTreeRecursively sa a part rest fileData = (Inr am, sam)"
    and aa: "applyChanges sam am tree = (Inr a', sa')"
    by blast
  from applyChanges_Cons[OF Cons.prems(2)] sg obtain bm sbm where
    ub: "updateTreeRecursively sb b part rest fileData = (Inr bm, sbm)"
    and ab: "applyChanges sbm bm tree = (Inr b', sb')"
    by auto
  have "\<forall>q. \<not> R q \<longrightarrow> sem am q = sem bm q"
    using update_agree[OF ua ub Cons.prems(3,4,5)] by blast
  from Cons.IH[OF aa ab update_wf[OF ua Cons.prems(3)] update_wf[OF ub Cons.prems(4)] this]
  show ?case .
qed

lemmas store_simps =
  createTree_def createTree_body_def git_getCommit_def git_readTree_def git_writeBlob_def
  git_writeTree_def remote_def store0_def origin0_def tree0_def base0_def put_def

section \<open>The tree builder changes only what a batch touches\<close>




section \<open>Two changes at one path\<close>

text \<open>
  A batch is applied change by change, each to the listing the previous one
  left. When a batch holds two changes at the same path and builds a tree, and
  the batch without the earlier of the two builds a tree too, the two trees read
  the same at every path, and at the changed path they read what the later
  change wrote unless a change after it touches that path. The two trees may
  list their entries in a different order, so they are compared by what a
  reader sees at each path.
\<close>

lemma later_change_wins:
  assumes p: "to_path c1 = to_path c2"
    and wf: "wf_oid (c_tree refHead)"
    and A: "createTree s origin refHead (xs @ c1 # ys @ c2 # zs) = (Inr t1, s1)"
    and B: "createTree s' origin' refHead (xs @ ys @ c2 # zs) = (Inr t2, s2)"
  shows "sem_oid t1 q = sem_oid t2 q
         \<and> ((\<forall>z \<in> set zs. \<not> touches (segments (to_path z)) (segments (to_path c2))) \<longrightarrow>
              sem_oid t1 (segments (to_path c2)) =
                (case to_content c2 of
                   Val c \<Rightarrow> Some (to_mode c2, Blob, Some (BlobOid c))
                 | _ \<Rightarrow> None))"
proof -
  from createTree_Inr[OF A] obtain es ps m a c k ea sa sa' where
    r: "refHead = CommitOid (TreeOid es) ps m a c k"
    and apA: "applyChanges sa es (xs @ c1 # ys @ c2 # zs) = (Inr ea, sa')"
    and t1: "t1 = TreeOid ea"
    by blast
  from createTree_Inr[OF B] r obtain eb sb sb' where
    apB: "applyChanges sb es (xs @ ys @ c2 # zs) = (Inr eb, sb')"
    and t2: "t2 = TreeOid eb"
    by auto
  have w: "wf_oid (TreeOid es)" using wf r by simp
  \<comment> \<open>the first run, step by step\<close>
  from applyChanges_append[OF apA] obtain ax sax where
    ax: "applyChanges sa es xs = (Inr ax, sax)"
    and a1': "applyChanges sax ax (c1 # ys @ c2 # zs) = (Inr ea, sa')"
    by blast
  from applyChanges_Cons[OF a1'] obtain part rest a1 sa1 where
    sg: "segments (to_path c1) = part # rest"
    and u1: "updateTreeRecursively sax ax part rest c1 = (Inr a1, sa1)"
    and ay': "applyChanges sa1 a1 (ys @ c2 # zs) = (Inr ea, sa')"
    by blast
  from applyChanges_append[OF ay'] obtain ay say where
    ay: "applyChanges sa1 a1 ys = (Inr ay, say)"
    and a2': "applyChanges say ay (c2 # zs) = (Inr ea, sa')"
    by blast
  from applyChanges_Cons[OF a2'] sg p obtain a2 sa2 where
    ua2: "updateTreeRecursively say ay part rest c2 = (Inr a2, sa2)"
    and az: "applyChanges sa2 a2 zs = (Inr ea, sa')"
    by auto
  \<comment> \<open>the second run\<close>
  from applyChanges_append[OF apB] obtain bx sbx where
    bx: "applyChanges sb es xs = (Inr bx, sbx)"
    and bv': "applyChanges sbx bx (ys @ c2 # zs) = (Inr eb, sb')"
    by blast
  from applyChanges_append[OF bv'] obtain bv sbv where
    bv: "applyChanges sbx bx ys = (Inr bv, sbv)"
    and b2': "applyChanges sbv bv (c2 # zs) = (Inr eb, sb')"
    by blast
  from applyChanges_Cons[OF b2'] sg p obtain b2 sb2 where
    ub2: "updateTreeRecursively sbv bv part rest c2 = (Inr b2, sb2)"
    and bz: "applyChanges sb2 b2 zs = (Inr eb, sb')"
    by auto
  \<comment> \<open>well-formedness along both runs\<close>
  have wax: "wf_oid (TreeOid ax)" using applyChanges_wf[OF ax w] .
  have wbx: "wf_oid (TreeOid bx)" using applyChanges_wf[OF bx w] .
  have wa1: "wf_oid (TreeOid a1)" using update_wf[OF u1 wax] .
  have way: "wf_oid (TreeOid ay)" using applyChanges_wf[OF ay wa1] .
  have wbv: "wf_oid (TreeOid bv)" using applyChanges_wf[OF bv wbx] .
  have wa2: "wf_oid (TreeOid a2)" using update_wf[OF ua2 way] .
  have wb2: "wf_oid (TreeOid b2)" using update_wf[OF ub2 wbv] .
  \<comment> \<open>the runs agree after \<open>xs\<close>, then outside the changed path, then everywhere\<close>
  have e0: "\<forall>q. \<not> False \<longrightarrow> sem es q = sem es q" by simp
  have ex: "\<forall>q. \<not> False \<longrightarrow> sem ax q = sem bx q"
    using applyChanges_agree[OF ax bx w w e0] .
  have e1: "\<forall>q. \<not> touches (part # rest) q \<longrightarrow> sem a1 q = sem bx q"
  proof (intro allI impI)
    fix q assume nt: "\<not> touches (part # rest) q"
    show "sem a1 q = sem bx q"
    proof (cases q)
      case Nil
      then show ?thesis by (simp add: sem_Nil)
    next
      case (Cons q1 qs)
      then have "\<not> prefix (part # rest) (q1 # qs)" "\<not> prefix (q1 # qs) (part # rest)"
        using nt by (simp_all add: touches_def)
      from update_frame[OF u1 this] have "sem a1 q = sem ax q"
        using Cons by (simp add: sem_def)
      then show ?thesis using ex by simp
    qed
  qed
  have ey: "\<forall>q. \<not> touches (part # rest) q \<longrightarrow> sem ay q = sem bv q"
    using applyChanges_agree[OF ay bv wa1 wbx e1] .
  have e2: "\<forall>q. \<not> False \<longrightarrow> sem a2 q = sem b2 q"
  proof (intro allI impI)
    fix q
    have "\<not> touches (part # rest) q \<or> touches (part # rest) q" by simp
    from update_agree[OF ua2 ub2 way wbv ey this] show "sem a2 q = sem b2 q" .
  qed
  have "\<forall>q. \<not> False \<longrightarrow> sem ea q = sem eb q"
    using applyChanges_agree[OF az bz wa2 wb2 e2] .
  then have same: "sem_oid t1 q = sem_oid t2 q"
    using t1 t2 by (simp add: sem_oid_def sem_def readTreePath_def)
  \<comment> \<open>what the later change wrote is what is read, unless a change after it touches the path\<close>
  have sg2: "segments (to_path c2) = part # rest" using sg p by simp
  have "touches (part # rest) (part # rest)" by (simp add: touches_def)
  from update_effect[OF ua2 way this]
  have w2: "sem a2 (part # rest) =
              (case to_content c2 of
                 Val c \<Rightarrow> Some (to_mode c2, Blob, Some (BlobOid c))
               | _ \<Rightarrow> None)"
    by (simp add: effect_def)
  have wins: "(\<forall>z \<in> set zs. \<not> touches (segments (to_path z)) (segments (to_path c2))) \<longrightarrow>
              sem_oid t1 (segments (to_path c2)) =
                (case to_content c2 of
                   Val c \<Rightarrow> Some (to_mode c2, Blob, Some (BlobOid c))
                 | _ \<Rightarrow> None)"
  proof
    assume "\<forall>z \<in> set zs. \<not> touches (segments (to_path z)) (segments (to_path c2))"
    from applyChanges_frame[OF az this]
    have "readPath ea (part # rest) = readPath a2 (part # rest)" using sg2 by simp
    then have "sem ea (part # rest) = sem a2 (part # rest)" by (simp add: sem_def)
    then show "sem_oid t1 (segments (to_path c2)) =
                (case to_content c2 of
                   Val c \<Rightarrow> Some (to_mode c2, Blob, Some (BlobOid c))
                 | _ \<Rightarrow> None)"
      using w2 sg2 t1 by (simp add: sem_oid_def sem_def readTreePath_def)
  qed
  show ?thesis using same wins by (rule conjI)
qed

text \<open>
  C9. A batch with two changes at one path does not always build the tree that
  the later change builds alone. When the earlier change is a deletion as
  \<^verbatim>\<open>generateTreeObjects\<close> emits it, the batch ends in the \<^verbatim>\<open>CommitError\<close> that
  every such deletion raises, and the later change is never applied; alone it
  builds a tree. Two changes with file content do build the later one's tree.
\<close>

theorem deletion_then_change_raises:
  "generateTreeObjects [(''README'', \<lparr>fd_mode = ''100644'', fd_content = None\<rparr>)]
     = Inr [gone ''README'']
   \<and> to_path (gone ''README'') = to_path (put ''README'' ''two'')
   \<and> fst (createTree store0 origin0 base0 [gone ''README'', put ''README'' ''two''])
       = Inl (CommitError (Error_adding_to_tree base0) Buffer_from_undefined)
   \<and> fst (createTree store0 origin0 base0 [put ''README'' ''two''])
       = Inr (TreeOid
           [TreeEntry ''100644'' ''README'' (BlobOid ''two'') Blob,
            TreeEntry ''040000'' ''docs''
              (TreeOid [TreeEntry ''100644'' ''a.md'' (BlobOid ''hello'') Blob]) Tree])
   \<and> fst (createTree store0 origin0 base0 [put ''docs/a.md'' ''one'', put ''docs/a.md'' ''two''])
       = Inr (TreeOid
           [TreeEntry ''100644'' ''README'' (BlobOid ''old'') Blob,
            TreeEntry ''040000'' ''docs''
              (TreeOid [TreeEntry ''100644'' ''a.md'' (BlobOid ''two'') Blob]) Tree])"
  by (simp add: store_simps mode2type_def gone_def)

section \<open>Paths that run through a file\<close>

lemma readTree_ok:
  "no_faults s \<Longrightarrow> \<exists>s1. git_readTree s (TreeOid sub) = (Inr sub, s1) \<and> no_faults s1"
  by (simp add: git_readTree_def remote_def no_faults_def)

lemma writeTree_ok:
  "no_faults s \<Longrightarrow> \<exists>s1. git_writeTree s es = (Inr (TreeOid es), s1) \<and> no_faults s1"
  by (simp add: git_writeTree_def remote_def no_faults_def)

lemma writeBlob_ok:
  "no_faults s \<Longrightarrow> \<exists>s1. git_writeBlob s b = (Inr (BlobOid b), s1) \<and> no_faults s1"
  by (simp add: git_writeBlob_def remote_def no_faults_def)

lemma update_succeeds:
  assumes "no_faults s" and "wf_oid (TreeOid es)" and "to_content fileData \<noteq> Undefined"
  shows "\<exists>es' s'. updateTreeRecursively s es part rest fileData = (Inr es', s') \<and> no_faults s'"
  using assms(1,2)
proof (induction rest arbitrary: s es part)
  case Nil
  show ?case
  proof (cases "to_content fileData")
    case Undefined
    then show ?thesis using assms(3) by simp
  next
    case Null
    then show ?thesis using Nil.prems(1) by (simp split: option.splits)
  next
    case (Val c)
    from writeBlob_ok[OF Nil.prems(1), of c] obtain s1 where
      "git_writeBlob s c = (Inr (BlobOid c), s1)" "no_faults s1" by blast
    then show ?thesis using Val by (simp split: option.splits)
  qed
next
  case (Cons n rest)
  let ?r = "case findIndex (\<lambda>entry. te_path entry = part) es of
              Some existingIndex \<Rightarrow>
                if te_type (es ! existingIndex) = Tree
                then git_readTree s (te_oid (es ! existingIndex))
                else (Inr [], s)
            | None \<Rightarrow> (Inr [], s)"
  have "\<exists>sub s1. ?r = (Inr sub, s1) \<and> no_faults s1 \<and> wf_oid (TreeOid sub)"
  proof (cases "findIndex (\<lambda>entry. te_path entry = part) es")
    case None
    then show ?thesis using Cons.prems(1) by simp
  next
    case (Some i)
    then have m: "es ! i \<in> set es"
      using findIndex_Some[of "\<lambda>entry. te_path entry = part" es i] by simp
    show ?thesis
    proof (cases "te_type (es ! i) = Tree")
      case False
      then show ?thesis using Some Cons.prems(1) by simp
    next
      case True
      then have w: "is_TreeOid (te_oid (es ! i))" "wf_oid (te_oid (es ! i))"
        using Cons.prems(2) m by auto
      then obtain sub where sub: "te_oid (es ! i) = TreeOid sub"
        by (cases "te_oid (es ! i)") simp_all
      from readTree_ok[OF Cons.prems(1), of sub] obtain s1 where
        "git_readTree s (TreeOid sub) = (Inr sub, s1)" "no_faults s1" by blast
      then show ?thesis using Some True sub w(2) by (simp del: wf_oid.simps)
    qed
  qed
  then obtain sub s1 where r: "?r = (Inr sub, s1)" and n1: "no_faults s1"
    and w1: "wf_oid (TreeOid sub)" by blast
  from Cons.IH[OF n1 w1] obtain sub' s2 where
    u: "updateTreeRecursively s1 sub n rest fileData = (Inr sub', s2)" and n2: "no_faults s2"
    by blast
  from writeTree_ok[OF n2, of sub'] obtain s3 where
    w: "git_writeTree s2 sub' = (Inr (TreeOid sub'), s3)" and n3: "no_faults s3" by blast
  show ?case using r u w n3 by (simp split: option.splits)
qed

text \<open>
  C2 (as amended). No path-conflict check exists: a segment that must be a
  directory and names an existing entry that is not one is given an empty
  listing to start from, and the entry is replaced. For every change with file
  content whose path runs through such an entry of a well-formed listing, the
  tree builder returns a listing whenever the store's calls succeed; in it the
  colliding segment is a directory (mode 040000) and the changed path reads as
  the new file.
\<close>

theorem blob_on_path_becomes_directory:
  assumes "no_faults s" and "wf_oid (TreeOid es)" and "to_content fileData = Val c"
    and "readPath es (pre @ [x]) = Some e" and "te_type e \<noteq> Tree"
    and "part # rest = pre @ x # y # below"
  shows "\<exists>es' s'. updateTreeRecursively s es part rest fileData = (Inr es', s')
           \<and> sem es' (pre @ [x]) = Some (''040000'', Tree, None)
           \<and> sem es' (part # rest) = Some (to_mode fileData, Blob, Some (BlobOid c))"
proof -
  have "to_content fileData \<noteq> Undefined" using assms(3) by simp
  from update_succeeds[OF assms(1,2) this, of part rest] obtain es' s' where
    u: "updateTreeRecursively s es part rest fileData = (Inr es', s')" by blast
  obtain q qs where q: "pre @ [x] = q # qs" by (cases "pre @ [x]") simp_all
  have sp: "strict_prefix (pre @ [x]) (part # rest)"
    using assms(6) by (simp add: strict_prefix_def prefix_def)
  then have t1: "touches (part # rest) (q # qs)"
    using q by (simp add: touches_def strict_prefix_def)
  have "sem es' (q # qs) = effect fileData (part # rest) (q # qs)"
    using update_effect[OF u assms(2) t1] .
  then have a: "sem es' (pre @ [x]) = Some (''040000'', Tree, None)"
    using sp q by (simp add: effect_def)
  have t2: "touches (part # rest) (part # rest)" by (simp add: touches_def)
  have "sem es' (part # rest) = effect fileData (part # rest) (part # rest)"
    using update_effect[OF u assms(2) t2] .
  then have b: "sem es' (part # rest) = Some (to_mode fileData, Blob, Some (BlobOid c))"
    using assms(3) by (simp add: effect_def)
  show ?thesis using u a b by blast
qed

theorem path_conflict_counterexample:
  "fst (createTree store0 origin0 base0 [put ''README'' ''x'', put ''README/y'' ''z''])
     = Inr (TreeOid
         [TreeEntry ''040000'' ''README''
            (TreeOid [TreeEntry ''100644'' ''y'' (BlobOid ''z'') Blob]) Tree,
          TreeEntry ''040000'' ''docs''
            (TreeOid [TreeEntry ''100644'' ''a.md'' (BlobOid ''hello'') Blob]) Tree])"
  by (simp add: store_simps)

theorem blob_on_path_becomes_directory_witness:
  "no_faults store0 \<and> wf_oid (TreeOid tree0) \<and> to_content (put ''README/y'' ''z'') = Val ''z''
   \<and> readPath tree0 ([] @ [''README''])
       = Some (TreeEntry ''100644'' ''README'' (BlobOid ''old'') Blob)
   \<and> te_type (TreeEntry ''100644'' ''README'' (BlobOid ''old'') Blob) \<noteq> Tree
   \<and> ''README'' # [''y''] = [] @ ''README'' # ''y'' # []
   \<and> (\<exists>es' s'. updateTreeRecursively store0 tree0 ''README'' [''y''] (put ''README/y'' ''z'')
                   = (Inr es', s')
          \<and> sem es' ([] @ [''README'']) = Some (''040000'', Tree, None)
          \<and> sem es' (''README'' # [''y''])
              = Some (to_mode (put ''README/y'' ''z''), Blob, Some (BlobOid ''z'')))"
proof -
  have h1: "no_faults store0" by (simp add: no_faults_def store0_def)
  have h2: "wf_oid (TreeOid tree0)" by (simp add: tree0_def)
  have h3: "to_content (put ''README/y'' ''z'') = Val ''z''" by (simp add: put_def)
  have h4: "readPath tree0 ([] @ [''README''])
              = Some (TreeEntry ''100644'' ''README'' (BlobOid ''old'') Blob)"
    by (simp add: tree0_def)
  have h5: "te_type (TreeEntry ''100644'' ''README'' (BlobOid ''old'') Blob) \<noteq> Tree" by simp
  have h6: "''README'' # [''y''] = [] @ ''README'' # ''y'' # []" by simp
  show ?thesis
    using h1 h2 h3 h4 h5 h6 blob_on_path_becomes_directory[OF h1 h2 h3 h4 h5 h6] by blast
qed

section \<open>Deletions\<close>

text \<open>
  C3. A deleted file reaches the tree builder as generated by
  \<^verbatim>\<open>generateTreeObjects\<close>: \<^verbatim>\<open>sha: null\<close> and no \<^verbatim>\<open>content\<close>. The builder tests
  \<^verbatim>\<open>content === null\<close>, which a missing property fails, and goes on to build a
  blob from \<^verbatim>\<open>undefined\<close>. The deletion of an existing file therefore ends in a
  \<^verbatim>\<open>CommitError\<close> and removes nothing.
\<close>

theorem deletion_change_raises:
  "generateTreeObjects [(''README'', \<lparr>fd_mode = ''100644'', fd_content = None\<rparr>)]
     = Inr [\<lparr>to_path = ''README'', to_mode = ''100644'', to_type = Blob, to_sha = Null,
             to_content = Undefined\<rparr>]
   \<and> map_option fst
        (commitAndPush store0 base0 [(''README'', \<lparr>fd_mode = ''100644'', fd_content = None\<rparr>)]
           origin0 ''delete README'' False None)
       = Some (Inl (CommitError (Error_adding_to_tree base0) Buffer_from_undefined))
   \<and> readCommitPath base0 [''README'']
       = Some (TreeEntry ''100644'' ''README'' (BlobOid ''old'') Blob)"
  by (simp add: commitAndPush_def commitBatches.simps mode2type_def slice_def
      filesPerCommit_or_default_def DEFAULT_FILES_PER_COMMIT_def store_simps
      readCommitPath_def readTreePath_def)

text \<open>
  C4. Deleting a path that the tree does not have is not a no-op. Through
  \<^verbatim>\<open>commitAndPush\<close> the deletion ends in the same \<^verbatim>\<open>CommitError\<close> as any
  deletion; handed to \<^verbatim>\<open>createTree\<close> with \<^verbatim>\<open>content: null\<close> it adds an empty
  directory for a missing first segment, and replaces a file that stands where
  the path needs a directory by an empty directory.
\<close>

theorem delete_missing_path_changes_tree:
  "readCommitPath base0 [''nodir''] = None
   \<and> map_option fst
        (commitAndPush store0 base0
           [(''nodir/file'', \<lparr>fd_mode = ''100644'', fd_content = None\<rparr>)]
           origin0 ''delete'' False None)
       = Some (Inl (CommitError (Error_adding_to_tree base0) Buffer_from_undefined))
   \<and> fst (createTree store0 origin0 base0 [del ''nodir/file''])
       = Inr (TreeOid (tree0 @ [TreeEntry ''040000'' ''nodir'' (TreeOid []) Tree]))
   \<and> readCommitPath base0 [''README'', ''x''] = None
   \<and> fst (createTree store0 origin0 base0 [del ''README/x''])
       = Inr (TreeOid
           [TreeEntry ''040000'' ''README'' (TreeOid []) Tree,
            TreeEntry ''040000'' ''docs''
              (TreeOid [TreeEntry ''100644'' ''a.md'' (BlobOid ''hello'') Blob]) Tree])"
  by (simp add: commitAndPush_def commitBatches.simps mode2type_def slice_def
      filesPerCommit_or_default_def DEFAULT_FILES_PER_COMMIT_def store_simps del_def
      readCommitPath_def readTreePath_def)

section \<open>What the batch loop leaves alone\<close>























section \<open>Commit chaining\<close>




section \<open>A failed batch\<close>




section \<open>Updating the reference\<close>

text \<open>
  C8. \<^verbatim>\<open>updateRef\<close> hands \<^verbatim>\<open>force\<close> to the store and wraps whatever the store
  raises in a \<^verbatim>\<open>CommitError\<close> that names the reference update and carries the
  cause, so a rejected update (cause \<open>NonFastForward\<close>) and a transport or
  authentication failure (the cause the transport raised) give different errors.
  Without \<^verbatim>\<open>force\<close> an update that is not a fast-forward fails and leaves the
  references as they were; with \<^verbatim>\<open>force\<close>, and for a fast-forward or a new
  branch, the reference is set to the new commit.
\<close>

theorem updateRef_outcomes:
  "(faults s (log s) (WriteRef (''refs/heads/'' @ branch origin) newSha force) = Some cause \<longrightarrow>
      fst (updateRef s origin newSha force)
        = Inl (CommitError (Error_updating_ref_heads (branch origin) newSha) cause)
      \<and> refs (snd (updateRef s origin newSha force)) = refs s)
   \<and> (faults s (log s) (WriteRef (''refs/heads/'' @ branch origin) newSha force) = None
        \<and> \<not> force \<and> refs s (''refs/heads/'' @ branch origin) = Some cur
        \<and> \<not> is_ancestor cur newSha \<longrightarrow>
      fst (updateRef s origin newSha force)
        = Inl (CommitError (Error_updating_ref_heads (branch origin) newSha) NonFastForward)
      \<and> refs (snd (updateRef s origin newSha force)) = refs s)
   \<and> (faults s (log s) (WriteRef (''refs/heads/'' @ branch origin) newSha force) = None
        \<and> (force \<or> refs s (''refs/heads/'' @ branch origin) = None
            \<or> (\<exists>c. refs s (''refs/heads/'' @ branch origin) = Some c \<and> is_ancestor c newSha)) \<longrightarrow>
      fst (updateRef s origin newSha force) = Inr ()
      \<and> refs (snd (updateRef s origin newSha force))
          = (refs s)(''refs/heads/'' @ branch origin \<mapsto> newSha))"
  by (auto simp: updateRef_def git_writeRef_def remote_def split: option.splits simp del: is_ancestor.simps)

theorem updateRef_outcomes_witness:
  "fst (updateRef store_offline origin0 child0 False)
     = Inl (CommitError (Error_updating_ref_heads (branch origin0) child0)
              (RemoteError ''ECONNREFUSED''))
   \<and> fst (updateRef store_at_base origin0 unrelated0 False)
     = Inl (CommitError (Error_updating_ref_heads (branch origin0) unrelated0) NonFastForward)
   \<and> refs (snd (updateRef store_at_base origin0 unrelated0 False)) = refs store_at_base
   \<and> refs store_at_base ''refs/heads/b'' = Some base0
   \<and> fst (updateRef store_at_base origin0 unrelated0 True) = Inr ()
   \<and> refs (snd (updateRef store_at_base origin0 unrelated0 True))
       = (refs store_at_base)(''refs/heads/'' @ branch origin0 \<mapsto> unrelated0)
   \<and> fst (updateRef store_at_base origin0 child0 False) = Inr ()
   \<and> refs (snd (updateRef store_at_base origin0 child0 False))
       = (refs store_at_base)(''refs/heads/'' @ branch origin0 \<mapsto> child0)"
proof -
  have a: "faults store_offline (log store_offline)
             (WriteRef (''refs/heads/'' @ branch origin0) child0 False)
           = Some (RemoteError ''ECONNREFUSED'')"
    by (simp add: store_offline_def)
  have b: "faults store_at_base (log store_at_base)
             (WriteRef (''refs/heads/'' @ branch origin0) unrelated0 False) = None
           \<and> \<not> False \<and> refs store_at_base (''refs/heads/'' @ branch origin0) = Some base0
           \<and> \<not> is_ancestor base0 unrelated0"
    by (simp add: store_at_base_def origin0_def unrelated0_def base0_def)
  have c: "faults store_at_base (log store_at_base)
             (WriteRef (''refs/heads/'' @ branch origin0) unrelated0 True) = None
           \<and> (True \<or> refs store_at_base (''refs/heads/'' @ branch origin0) = None
               \<or> (\<exists>c. refs store_at_base (''refs/heads/'' @ branch origin0) = Some c
                     \<and> is_ancestor c unrelated0))"
    by (simp add: store_at_base_def)
  have d: "faults store_at_base (log store_at_base)
             (WriteRef (''refs/heads/'' @ branch origin0) child0 False) = None
           \<and> (False \<or> refs store_at_base (''refs/heads/'' @ branch origin0) = None
               \<or> (\<exists>c. refs store_at_base (''refs/heads/'' @ branch origin0) = Some c
                     \<and> is_ancestor c child0))"
    by (simp add: store_at_base_def origin0_def child0_def base0_def)
  have r: "refs store_at_base ''refs/heads/b'' = Some base0"
    by (simp add: store_at_base_def)
  show ?thesis
    using a b c d r
      updateRef_outcomes[of store_offline origin0 child0 False "RemoteError ''ECONNREFUSED''"]
      updateRef_outcomes[of store_at_base origin0 unrelated0 False _ base0]
      updateRef_outcomes[of store_at_base origin0 unrelated0 True]
      updateRef_outcomes[of store_at_base origin0 child0 False]
    by blast
qed

section \<open>An empty change set\<close>

lemma commitBatches_empty:
  "commitBatches s refHead [] groupSize 0 originBranch commitMessage options
     = Some (Inr refHead, s)"
  by (subst commitBatches.simps) simp

text \<open>
  C10. With no changes \<^verbatim>\<open>commitAndPush\<close> returns, whatever the group size. It
  writes no object, so it creates no commit, and the first call it makes is the
  update of the branch reference to the base head it was given. When the store
  accepts that update and the push, it succeeds: the reference is at the base
  head and the two calls made are the reference update and the push.
\<close>

theorem empty_change_set:
  "\<exists>res s'. commitAndPush s refHead [] originBranch commitMessage force options = Some (res, s')
     \<and> written s' = written s
     \<and> take (Suc (length (log s))) (log s')
         = log s @ [WriteRef (''refs/heads/'' @ branch originBranch) refHead force]
     \<and> (faults s (log s) (WriteRef (''refs/heads/'' @ branch originBranch) refHead force) = None
         \<and> (force \<or> refs s (''refs/heads/'' @ branch originBranch) = None
             \<or> (\<exists>c. refs s (''refs/heads/'' @ branch originBranch) = Some c
                   \<and> is_ancestor c refHead))
         \<and> faults s (log s @ [WriteRef (''refs/heads/'' @ branch originBranch) refHead force])
             (Push force) = None
         \<longrightarrow> res = Inr ()
             \<and> refs s' = (refs s)(''refs/heads/'' @ branch originBranch \<mapsto> refHead)
             \<and> log s' = log s @ [WriteRef (''refs/heads/'' @ branch originBranch) refHead force,
                                 Push force])"
  by (auto simp: commitAndPush_def commitBatches_empty updateRef_def git_writeRef_def git_push_def
        remote_def split: option.splits simp del: is_ancestor.simps)

theorem empty_change_set_witness:
  "\<exists>s'. commitAndPush store_at_base base0 [] origin0 ''msg'' False None = Some (Inr (), s')
     \<and> written s' = written store_at_base
     \<and> refs s' ''refs/heads/b'' = Some base0
     \<and> log s' = [WriteRef ''refs/heads/b'' base0 False, Push False]"
proof -
  have h: "faults store_at_base (log store_at_base)
             (WriteRef (''refs/heads/'' @ branch origin0) base0 False) = None
         \<and> (False \<or> refs store_at_base (''refs/heads/'' @ branch origin0) = None
             \<or> (\<exists>c. refs store_at_base (''refs/heads/'' @ branch origin0) = Some c
                   \<and> is_ancestor c base0))
         \<and> faults store_at_base
             (log store_at_base @ [WriteRef (''refs/heads/'' @ branch origin0) base0 False])
             (Push False) = None"
    by (simp add: store_at_base_def origin0_def base0_def)
  from empty_change_set[of store_at_base base0 origin0 "''msg''" False None] h
  obtain res s' where
    "commitAndPush store_at_base base0 [] origin0 ''msg'' False None = Some (res, s')"
    "written s' = written store_at_base"
    "res = Inr ()"
    "refs s' = (refs store_at_base)(''refs/heads/'' @ branch origin0 \<mapsto> base0)"
    "log s' = log store_at_base @ [WriteRef (''refs/heads/'' @ branch origin0) base0 False,
                                   Push False]"
    by blast
  then show ?thesis by (auto simp: store_at_base_def origin0_def)
qed

end
